theory Spec2Isabelle
  imports Main "HOL-Library.Word"
begin

section \<open>Data model\<close>

type_synonym string_type = string

subsection \<open>CSS::Property (property.hpp, property.cpp)\<close>

text \<open>
  The class has one data member, \<^verbatim>\<open>std::pair<string_type, string_type> property\<close>.
  A member function that mutates the object takes the object and returns the updated one.
\<close>

record Property =
  property :: "string_type \<times> string_type"

definition get_key :: "Property \<Rightarrow> string_type" where
  "get_key this = fst (property this)"

definition get_value :: "Property \<Rightarrow> string_type" where
  "get_value this = snd (property this)"

definition get_pair :: "Property \<Rightarrow> string_type \<times> string_type" where
  "get_pair this = property this"

definition set_key :: "Property \<Rightarrow> string_type \<Rightarrow> Property" where
  "set_key this key = this\<lparr>property := (key, snd (property this))\<rparr>"

definition set_value :: "Property \<Rightarrow> string_type \<Rightarrow> Property" where
  "set_value this val = this\<lparr>property := (fst (property this), val)\<rparr>"

subsection \<open>The not-found sentinel\<close>

text \<open>
  \<^verbatim>\<open>static constexpr size_type npos = -1;\<close> in Section (section.hpp, line 435) and in
  CSS::Property (property.hpp, line 25). The alias \<^verbatim>\<open>size_type\<close> is declared in
  bygg/types.hpp, which is not among the sources; it is an unsigned integer type, and its
  width is kept as the type parameter \<open>'w\<close>.
\<close>

definition Section_npos :: "'w::len word" where
  "Section_npos = word_of_int (- 1)"

definition Property_npos :: "'w::len word" where
  "Property_npos = word_of_int (- 1)"

subsection \<open>Elements, Sections and the variant child\<close>

text \<open>
  Modelled from the spec: the HTML property list (bygg/HTML/properties.hpp is not among the
  sources) is an ordered sequence of key/value string pairs, duplicates permitted.
\<close>

type_synonym Properties = "(string_type \<times> string_type) list"

text \<open>
  Modelled from the spec: the classification enum (bygg/HTML/type_enum.hpp is not among the
  sources) has the three values Container, Void and NoFormat.
\<close>

datatype Type = Container | Void | NoFormat

text \<open>
  Modelled from the spec: an Element (bygg/HTML/element.hpp is not among the sources) is the
  leaf value built by \<^verbatim>\<open>Element(tag, properties, data, type)\<close> in parser.cpp, line 38.
\<close>

datatype Element = Element (element_tag: string_type) (element_properties: Properties)
  (element_data: string_type) (element_type: Type)

text \<open>
  A Section value is what the copy constructor copies (section.hpp, lines 753-757): tag,
  properties and members, where a member is \<^verbatim>\<open>std::variant<Element, Section>\<close>. The two
  \<^verbatim>\<open>mutable\<close> caches \<^verbatim>\<open>elements\<close> and \<^verbatim>\<open>sections\<close> are not copied; they belong to
  the object on which a view is requested and are modelled in the record \<open>Section_object\<close>
  below.
\<close>

datatype variant_t = Elem Element | Sect Section
and Section = Section (section_tag: string_type) (section_properties: Properties)
  (section_members: "variant_t list")

datatype error =
    out_of_range        \<comment> \<open>\<^verbatim>\<open>throw out_of_range(...)\<close> of bygg/except.hpp\<close>
  | std_out_of_range    \<comment> \<open>thrown by \<^verbatim>\<open>std::vector::at\<close>\<close>
  | empty_stack_top     \<comment> \<open>\<^verbatim>\<open>std::stack::top\<close> on an empty stack (undefined behaviour)\<close>
  | dangling_pointer    \<comment> \<open>a \<^verbatim>\<open>Section*\<close> that designates no Section (undefined behaviour)\<close>
  | invalid_iterator    \<comment> \<open>an iterator moved or read outside its vector (undefined behaviour)\<close>

section \<open>TreeBuilder: parse_html_string (parser.cpp)\<close>

text \<open>
  Modelled from the spec: the element type of \<^verbatim>\<open>TagList\<close> (bygg/HTML/impl/libxml2.hpp is
  not among the sources) is a token \<open>{tag, properties, text, classification, depth}\<close>;
  the field names are the ones parser.cpp reads (\<^verbatim>\<open>it.tag\<close>, \<^verbatim>\<open>it.properties\<close>,
  \<^verbatim>\<open>it.data\<close>, \<^verbatim>\<open>it.type\<close>, \<^verbatim>\<open>it.depth\<close>), and depth 0 is the top level. The depth is a
  C++ integer of fixed width. Its declaration is absent; line 23 compares \<^verbatim>\<open>it.depth + 1\<close>
  with \<^verbatim>\<open>section_stack.size()\<close>, a \<^verbatim>\<open>size_t\<close>, and the depth is modelled with the type of
  that other operand: an unsigned integer of 64 bits. Its arithmetic wraps around:
  \<^verbatim>\<open>it.depth + 1\<close> is 0 at the largest value (all bits set, which is the value -1 of a
  signed type, where \<^verbatim>\<open>it.depth + 1\<close> is 0 as well).
\<close>

type_synonym depth_type = "64 word"

record token =
  tag :: string_type
  properties :: Properties
  data :: string_type
  type :: Type
  depth :: depth_type

type_synonym TagList = "token list"

text \<open>
  Modelled from the spec: \<^verbatim>\<open>resolve_tag(Tag::Empty).first\<close> (the tag table of tag.cpp is not
  among the sources) is the empty sentinel tag, and \<^verbatim>\<open>make_properties()\<close> without arguments
  is the empty property list.
\<close>

definition resolve_tag_Empty :: string_type where
  "resolve_tag_Empty = []"

definition make_properties :: Properties where
  "make_properties = []"

text \<open>
  Modelled from the spec: \<^verbatim>\<open>Section::push_back\<close> (section.cpp is not among the sources)
  appends the new child at the end of the combined child list.
\<close>

fun push_back :: "Section \<Rightarrow> variant_t \<Rightarrow> Section" where
  "push_back (Section t ps ms) v = Section t ps (ms @ [v])"

text \<open>
  Modelled from the spec: \<^verbatim>\<open>Section::back_section()\<close> (section.cpp is not among the sources)
  is "the last section of the section" (section.hpp, line 613): a reference to the last
  Section-typed child. \<open>back_section_index\<close> is the combined position of that child, counted
  over the first \<open>n\<close> members; with no Section child the accessor fails.
\<close>

fun back_section_index :: "variant_t list \<Rightarrow> nat \<Rightarrow> nat option" where
  "back_section_index ms 0 = None"
| "back_section_index ms (Suc n) =
     (case ms ! n of Sect _ \<Rightarrow> Some n | Elem _ \<Rightarrow> back_section_index ms n)"

text \<open>
  A \<^verbatim>\<open>Section*\<close> of the section stack points either at the local \<^verbatim>\<open>container\<close> or at a
  Section stored inside the \<^verbatim>\<open>members\<close> vector of another Section. It is modelled as the
  list of combined child positions that leads from \<^verbatim>\<open>container\<close> to the pointee; the empty
  list is \<^verbatim>\<open>&container\<close>. Reading through the pointer is \<open>deref\<close>, writing through it is
  \<open>assign\<close>; both fail where the pointer designates no Section.
\<close>

type_synonym section_ptr = "nat list"

fun deref :: "Section \<Rightarrow> section_ptr \<Rightarrow> Section option" where
  "deref s [] = Some s"
| "deref s (i # p) =
     (if i < length (section_members s)
      then (case section_members s ! i of Sect c \<Rightarrow> deref c p | Elem _ \<Rightarrow> None)
      else None)"

fun assign :: "Section \<Rightarrow> section_ptr \<Rightarrow> Section \<Rightarrow> Section option" where
  "assign s [] v = Some v"
| "assign s (i # p) v =
     (if i < length (section_members s)
      then (case section_members s ! i of
              Sect c \<Rightarrow>
                (case assign c p v of
                   Some c' \<Rightarrow>
                     Some (Section (section_tag s) (section_properties s)
                             ((section_members s)[i := Sect c']))
                 | None \<Rightarrow> None)
            | Elem _ \<Rightarrow> None)
      else None)"

record parser_state =
  container :: Section
  section_stack :: "section_ptr list"   \<comment> \<open>the top of the stack is the head of the list\<close>

text \<open>
  \<^verbatim>\<open>while (section_stack.size() > it.depth + 1) section_stack.pop();\<close> The sum is
  computed in the depth type, where it wraps around, and then compared with the size.
\<close>

fun pop_loop :: "section_ptr list \<Rightarrow> depth_type \<Rightarrow> section_ptr list" where
  "pop_loop stack d = (if length stack > unat (d + 1) then pop_loop (tl stack) d else stack)"

declare pop_loop.simps [simp del]

text \<open>\<^verbatim>\<open>current_section->push_back(v);\<close>\<close>

definition ptr_push_back :: "Section \<Rightarrow> section_ptr \<Rightarrow> variant_t \<Rightarrow> error + Section" where
  "ptr_push_back root current_section v =
     (case deref root current_section of
        None \<Rightarrow> Inl dangling_pointer
      | Some s \<Rightarrow>
          (case assign root current_section (push_back s v) of
             None \<Rightarrow> Inl dangling_pointer
           | Some root' \<Rightarrow> Inr root'))"

text \<open>\<^verbatim>\<open>&current_section->back_section()\<close>\<close>

definition ptr_back_section :: "Section \<Rightarrow> section_ptr \<Rightarrow> error + section_ptr" where
  "ptr_back_section root current_section =
     (case deref root current_section of
        None \<Rightarrow> Inl dangling_pointer
      | Some s \<Rightarrow>
          (case back_section_index (section_members s) (length (section_members s)) of
             None \<Rightarrow> Inl out_of_range
           | Some n \<Rightarrow> Inr (current_section @ [n])))"

text \<open>
  The two statements shared by the Container branch (lines 30-31) and the implicit container
  branch (lines 34-36): append a Section to \<^verbatim>\<open>*current_section\<close>, then push the address of
  \<^verbatim>\<open>current_section->back_section()\<close>.
\<close>

definition push_section ::
  "parser_state \<Rightarrow> section_ptr list \<Rightarrow> section_ptr \<Rightarrow> Section \<Rightarrow> error + parser_state" where
  "push_section st stack current_section new_sect =
     (case ptr_push_back (container st) current_section (Sect new_sect) of
        Inl e \<Rightarrow> Inl e
      | Inr root' \<Rightarrow>
          (case ptr_back_section root' current_section of
             Inl e \<Rightarrow> Inl e
           | Inr p \<Rightarrow> Inr \<lparr>container = root', section_stack = p # stack\<rparr>))"

text \<open>Line 38: append a leaf Element to \<^verbatim>\<open>*current_section\<close>; the stack is not pushed.\<close>

definition push_element ::
  "parser_state \<Rightarrow> section_ptr list \<Rightarrow> section_ptr \<Rightarrow> Element \<Rightarrow> error + parser_state" where
  "push_element st stack current_section e =
     (case ptr_push_back (container st) current_section (Elem e) of
        Inl e \<Rightarrow> Inl e
      | Inr root' \<Rightarrow> Inr \<lparr>container = root', section_stack = stack\<rparr>)"

text \<open>
  The test of line 33. \<^verbatim>\<open>list[i - 1]\<close> is read only when \<^verbatim>\<open>i > 0\<close>, as \<^verbatim>\<open>&&\<close>
  evaluates from the left.
\<close>

definition implicit_container :: "TagList \<Rightarrow> nat \<Rightarrow> bool" where
  "implicit_container list i =
     (i > 0 \<and> depth (list ! i) > depth (list ! (i - 1))
        \<and> data (list ! i) = [] \<and> data (list ! (i - 1)) = [])"

text \<open>
  One iteration of the for loop (lines 20-40), for an index \<open>i < length list\<close>.
  \<^verbatim>\<open>is_container\<close> is declared in tag.hpp and defined in tag.cpp, which is not among the
  sources: it is a parameter of the model.
\<close>

definition loop_body ::
  "(string_type \<Rightarrow> bool) \<Rightarrow> TagList \<Rightarrow> nat \<Rightarrow> parser_state \<Rightarrow> error + parser_state" where
  "loop_body is_container list i st =
     (let it = list ! i;
          stack = pop_loop (section_stack st) (depth it)
      in case stack of
           [] \<Rightarrow> Inl empty_stack_top
         | current_section # _ \<Rightarrow>
             if is_container (tag it)
             then push_section st stack current_section (Section (tag it) (properties it) [])
             else if implicit_container list i
             then push_section st stack current_section (Section (tag it) (properties it) [])
             else push_element st stack current_section
                    (Element (tag it) (properties it) (data it) (type it)))"

text \<open>\<^verbatim>\<open>for (size_t i = 0; i < list.size(); ++i) { ... }\<close>, entered at index \<open>i\<close>.\<close>

function for_loop ::
  "(string_type \<Rightarrow> bool) \<Rightarrow> TagList \<Rightarrow> nat \<Rightarrow> parser_state \<Rightarrow> error + parser_state" where
  "for_loop is_container list i st =
     (if i < length list
      then (case loop_body is_container list i st of
              Inl e \<Rightarrow> Inl e
            | Inr st' \<Rightarrow> for_loop is_container list (i + 1) st')
      else Inr st)"
  by pat_completeness auto
termination
  by (relation "measure (\<lambda>(is_container, list, i, st). length list - i)") auto

declare for_loop.simps [simp del]

text \<open>
  Lines 13-17: the local \<^verbatim>\<open>container\<close> and the stack holding \<^verbatim>\<open>&container\<close> only.
\<close>

definition initial_state :: parser_state where
  "initial_state =
     \<lparr>container = Section resolve_tag_Empty make_properties [], section_stack = [[]]\<rparr>"

text \<open>
  The tokenizer call of line 14 is external; the model starts from the token list it
  returned.
\<close>

definition parse_html_string :: "(string_type \<Rightarrow> bool) \<Rightarrow> TagList \<Rightarrow> error + Section" where
  "parse_html_string is_container list =
     (case for_loop is_container list 0 initial_state of
        Inl e \<Rightarrow> Inl e
      | Inr st \<Rightarrow> Inr (container st))"

text \<open>
  The state in which iteration \<open>n\<close> of the for loop starts, that is, the state after the
  iterations \<open>0, \<dots>, n - 1\<close>. It is used to state what holds at each iteration; lemma
  \<open>for_loop_run\<close> below shows that \<open>for_loop\<close> passes through exactly these states.
\<close>

fun run :: "(string_type \<Rightarrow> bool) \<Rightarrow> TagList \<Rightarrow> nat \<Rightarrow> error + parser_state" where
  "run is_container list 0 = Inr initial_state"
| "run is_container list (Suc n) =
     (case run is_container list n of
        Inl e \<Rightarrow> Inl e
      | Inr st \<Rightarrow> loop_body is_container list n st)"

text \<open>
  The loop invariant. The stack is never empty, its bottom entry is \<^verbatim>\<open>&container\<close>, every
  other entry points at a child of the Section the entry below it points at, and the top
  entry designates a Section of the tree under \<^verbatim>\<open>container\<close> (hence all entries do).
  Every entry is then a prefix of the top entry (lemma \<open>chain_prefix\<close> below), so the
  \<^verbatim>\<open>members\<close> vector that a \<^verbatim>\<open>push_back\<close> through the top entry may reallocate holds no
  Section that an entry of the stack points at: positions are enough to model the pointers.
\<close>

fun chain :: "section_ptr list \<Rightarrow> bool" where
  "chain [] = False"
| "chain [p] = (p = [])"
| "chain (p # q # stack) = (p \<noteq> [] \<and> butlast p = q \<and> chain (q # stack))"

definition stack_ok :: "parser_state \<Rightarrow> bool" where
  "stack_ok st =
     (chain (section_stack st) \<and> deref (container st) (hd (section_stack st)) \<noteq> None)"

text \<open>
  The children of the root, token by token. \<open>node_of_token\<close> is the child that iteration
  \<open>i\<close> appends to the Section at the stack top: a Section without children in the two
  Section branches, the leaf Element otherwise. \<open>at_root\<close> says that iteration \<open>i\<close> is
  reached and that its pop loop leaves the pointer to the root alone on the stack, so that
  the child is appended to the root. \<open>root_tokens\<close> lists the indices below \<open>n\<close> of those
  tokens, in input order. \<open>shallow\<close> forgets the children of a Section child, which later
  iterations may extend.
\<close>

definition node_of_token :: "(string_type \<Rightarrow> bool) \<Rightarrow> TagList \<Rightarrow> nat \<Rightarrow> variant_t" where
  "node_of_token is_container list i =
     (let it = list ! i
      in if is_container (tag it) \<or> implicit_container list i
         then Sect (Section (tag it) (properties it) [])
         else Elem (Element (tag it) (properties it) (data it) (type it)))"

definition at_root :: "(string_type \<Rightarrow> bool) \<Rightarrow> TagList \<Rightarrow> nat \<Rightarrow> bool" where
  "at_root is_container list i =
     (case run is_container list i of
        Inl _ \<Rightarrow> False
      | Inr st \<Rightarrow> length (pop_loop (section_stack st) (depth (list ! i))) = 1)"

definition root_tokens :: "(string_type \<Rightarrow> bool) \<Rightarrow> TagList \<Rightarrow> nat \<Rightarrow> nat list" where
  "root_tokens is_container list n = filter (at_root is_container list) [0..<n]"

fun shallow :: "variant_t \<Rightarrow> variant_t" where
  "shallow (Elem e) = Elem e"
| "shallow (Sect s) = Sect (Section (section_tag s) (section_properties s) [])"

subsection \<open>The examples of the specification\<close>

text \<open>
  The specification's two TreeBuilder examples fix the classification of the tags they use:
  div is Container; p, span, b and i are not. \<open>is_container_div\<close> realises that
  classification; it instantiates the parameter \<open>is_container\<close> at the concrete inputs below.
\<close>

definition is_container_div :: "string_type \<Rightarrow> bool" where
  "is_container_div t = (t = ''div'')"

definition tokens_b_i :: TagList where
  "tokens_b_i =
     [\<lparr>tag = ''b'', properties = [], data = [], type = Void, depth = 0\<rparr>,
      \<lparr>tag = ''i'', properties = [], data = [], type = Void, depth = 1\<rparr>]"

definition tokens_div_p_span :: TagList where
  "tokens_div_p_span =
     [\<lparr>tag = ''div'', properties = [], data = [], type = Container, depth = 0\<rparr>,
      \<lparr>tag = ''p'', properties = [], data = ''x'', type = Container, depth = 1\<rparr>,
      \<lparr>tag = ''span'', properties = [], data = ''y'', type = Container, depth = 1\<rparr>]"

text \<open>
  In the words of the specification: the tree \<open>root\<close> nests \<open>inner\<close> as a child Section
  under \<open>outer\<close>, that is, \<open>root\<close> has a child Section tagged \<open>outer\<close> which has a child
  Section tagged \<open>inner\<close>.
\<close>

text \<open>
  Two token lists in which the last token carries the largest depth value, the one at which
  \<^verbatim>\<open>it.depth + 1\<close> is 0.
\<close>

definition tokens_b_i_wrap :: TagList where
  "tokens_b_i_wrap =
     [\<lparr>tag = ''b'', properties = [], data = [], type = Void, depth = 0\<rparr>,
      \<lparr>tag = ''i'', properties = [], data = [], type = Void, depth = - 1\<rparr>]"

definition tokens_p_wrap :: TagList where
  "tokens_p_wrap =
     [\<lparr>tag = ''p'', properties = [], data = ''x'', type = Container, depth = - 1\<rparr>]"

definition tokens_div_wrap :: TagList where
  "tokens_div_wrap =
     [\<lparr>tag = ''div'', properties = [], data = [], type = Container, depth = - 1\<rparr>]"

definition nested_under :: "string_type \<Rightarrow> string_type \<Rightarrow> Section \<Rightarrow> bool" where
  "nested_under outer inner root =
     list_ex (\<lambda>c. case c of
                 Elem _ \<Rightarrow> False
               | Sect s \<Rightarrow> section_tag s = outer
                   \<and> list_ex (\<lambda>d. case d of Elem _ \<Rightarrow> False | Sect s' \<Rightarrow> section_tag s' = inner)
                        (section_members s))
       (section_members root)"

section \<open>Section: positional access and filtered views (section.hpp)\<close>

text \<open>
  A Section object on which accessors are called: the Section value (tag, properties,
  members) together with the two \<^verbatim>\<open>mutable\<close> caches declared at lines 873-874. A member
  function returns its result together with the object as it leaves it.
\<close>

record Section_object =
  this :: Section
  elements :: "Element list"
  sections :: "Section list"

definition members :: "Section_object \<Rightarrow> variant_t list" where
  "members obj = section_members (this obj)"

text \<open>\<^verbatim>\<open>std::vector::at\<close>: bounds-checked access.\<close>

definition vector_at :: "'a list \<Rightarrow> nat \<Rightarrow> error + 'a" where
  "vector_at v n = (if n < length v then Inr (v ! n) else Inl std_out_of_range)"

text \<open>
  \<^verbatim>\<open>get_any\<close> (lines 107-115): the loop
  \<^verbatim>\<open>for (size_type i{}; i < members.size(); ++i) if (i == index) return members.at(i);\<close>
  entered at \<open>i\<close>, followed by \<^verbatim>\<open>throw out_of_range("Index out of range")\<close>.
\<close>

function get_any_loop :: "variant_t list \<Rightarrow> nat \<Rightarrow> nat \<Rightarrow> error + variant_t" where
  "get_any_loop ms index i =
     (if i < length ms
      then (if i = index then vector_at ms i else get_any_loop ms index (i + 1))
      else Inl out_of_range)"
  by pat_completeness auto
termination
  by (relation "measure (\<lambda>(ms, index, i). length ms - i)") auto

declare get_any_loop.simps [simp del]

definition get_any :: "Section_object \<Rightarrow> nat \<Rightarrow> (error + variant_t) \<times> Section_object" where
  "get_any obj index = (get_any_loop (members obj) index 0, obj)"

text \<open>
  The body shared by all element views: \<^verbatim>\<open>elements.clear()\<close>, then the range-for over
  \<^verbatim>\<open>members\<close> that appends every member holding an Element. \<open>fill_elements\<close> is the
  range-for, with the cache as accumulator; \<open>fill_sections\<close> is its twin for
  \<^verbatim>\<open>sections\<close>.
\<close>

fun fill_elements :: "variant_t list \<Rightarrow> Element list \<Rightarrow> Element list" where
  "fill_elements [] es = es"
| "fill_elements (it # rest) es =
     (case it of
        Elem e \<Rightarrow> fill_elements rest (es @ [e])
      | Sect _ \<Rightarrow> fill_elements rest es)"

fun fill_sections :: "variant_t list \<Rightarrow> Section list \<Rightarrow> Section list" where
  "fill_sections [] ss = ss"
| "fill_sections (it # rest) ss =
     (case it of
        Sect s \<Rightarrow> fill_sections rest (ss @ [s])
      | Elem _ \<Rightarrow> fill_sections rest ss)"

definition rebuild_elements :: "Section_object \<Rightarrow> Section_object" where
  "rebuild_elements obj = obj\<lparr>elements := fill_elements (members obj) []\<rparr>"

definition rebuild_sections :: "Section_object \<Rightarrow> Section_object" where
  "rebuild_sections obj = obj\<lparr>sections := fill_sections (members obj) []\<rparr>"

text \<open>
  An iterator into a cache vector is the position it designates: \<^verbatim>\<open>begin()\<close> is 0 and
  \<^verbatim>\<open>end()\<close> is the size. A \<^verbatim>\<open>std::reverse_iterator\<close> wraps a base position: \<^verbatim>\<open>rbegin()\<close>
  has base \<^verbatim>\<open>end()\<close>, \<^verbatim>\<open>rend()\<close> has base \<^verbatim>\<open>begin()\<close>, dereferencing reads the entry before
  the base, and incrementing moves the base down by one.
\<close>

datatype reverse_iterator = reverse_iterator (base: nat)

text \<open>Lines 121-129, 134-142, and the const overloads at lines 147-155 and 160-168.\<close>

definition element_begin :: "Section_object \<Rightarrow> nat \<times> Section_object" where
  "element_begin obj = (let obj' = rebuild_elements obj in (0, obj'))"

definition element_end :: "Section_object \<Rightarrow> nat \<times> Section_object" where
  "element_end obj = (let obj' = rebuild_elements obj in (length (elements obj'), obj'))"

definition element_begin_const :: "Section_object \<Rightarrow> nat \<times> Section_object" where
  "element_begin_const obj = (let obj' = rebuild_elements obj in (0, obj'))"

definition element_end_const :: "Section_object \<Rightarrow> nat \<times> Section_object" where
  "element_end_const obj = (let obj' = rebuild_elements obj in (length (elements obj'), obj'))"

text \<open>
  Lines 199-208 and 213-222. Line 221 of \<^verbatim>\<open>element_rend\<close> reads
  \<^verbatim>\<open>return element_reverse_iterator(elements.rbegin());\<close>.
\<close>

definition element_rbegin :: "Section_object \<Rightarrow> reverse_iterator \<times> Section_object" where
  "element_rbegin obj =
     (let obj' = rebuild_elements obj in (reverse_iterator (length (elements obj')), obj'))"

definition element_rend :: "Section_object \<Rightarrow> reverse_iterator \<times> Section_object" where
  "element_rend obj =
     (let obj' = rebuild_elements obj in (reverse_iterator (length (elements obj')), obj'))"

text \<open>
  Lines 227-236 and 241-250: the const reverse view; line 249 returns
  \<^verbatim>\<open>elements.crend()\<close>.
\<close>

definition element_crbegin :: "Section_object \<Rightarrow> reverse_iterator \<times> Section_object" where
  "element_crbegin obj =
     (let obj' = rebuild_elements obj in (reverse_iterator (length (elements obj')), obj'))"

definition element_crend :: "Section_object \<Rightarrow> reverse_iterator \<times> Section_object" where
  "element_crend obj = (let obj' = rebuild_elements obj in (reverse_iterator 0, obj'))"

text \<open>Lines 255-263, 268-276, and the const overloads at lines 281-289 and 294-302.\<close>

definition section_begin :: "Section_object \<Rightarrow> nat \<times> Section_object" where
  "section_begin obj = (let obj' = rebuild_sections obj in (0, obj'))"

definition section_end :: "Section_object \<Rightarrow> nat \<times> Section_object" where
  "section_end obj = (let obj' = rebuild_sections obj in (length (sections obj'), obj'))"

definition section_begin_const :: "Section_object \<Rightarrow> nat \<times> Section_object" where
  "section_begin_const obj = (let obj' = rebuild_sections obj in (0, obj'))"

definition section_end_const :: "Section_object \<Rightarrow> nat \<times> Section_object" where
  "section_end_const obj = (let obj' = rebuild_sections obj in (length (sections obj'), obj'))"

text \<open>Lines 333-341 and 346-354: the reverse section view; line 353 returns \<^verbatim>\<open>sections.rend()\<close>.\<close>

definition section_rbegin :: "Section_object \<Rightarrow> reverse_iterator \<times> Section_object" where
  "section_rbegin obj =
     (let obj' = rebuild_sections obj in (reverse_iterator (length (sections obj')), obj'))"

definition section_rend :: "Section_object \<Rightarrow> reverse_iterator \<times> Section_object" where
  "section_rend obj = (let obj' = rebuild_sections obj in (reverse_iterator 0, obj'))"

text \<open>
  The sequence a caller visits between two iterators of a vector \<open>v\<close> with the usual loop
  \<^verbatim>\<open>for (it = first; it != stop; ++it) visit(*it);\<close>. Reading or moving an iterator outside
  the vector is undefined behaviour, reported as \<open>invalid_iterator\<close>.
\<close>

function forward_range :: "'a list \<Rightarrow> nat \<Rightarrow> nat \<Rightarrow> error + 'a list" where
  "forward_range v first stop =
     (if first = stop then Inr []
      else if length v \<le> first then Inl invalid_iterator
      else (case forward_range v (first + 1) stop of
              Inl e \<Rightarrow> Inl e
            | Inr xs \<Rightarrow> Inr (v ! first # xs)))"
  by pat_completeness auto
termination
  by (relation "measure (\<lambda>(v, first, stop). length v - first)") auto

declare forward_range.simps [simp del]

function reverse_range ::
  "'a list \<Rightarrow> reverse_iterator \<Rightarrow> reverse_iterator \<Rightarrow> error + 'a list" where
  "reverse_range v first stop =
     (if base first = base stop then Inr []
      else if base first = 0 \<or> length v < base first then Inl invalid_iterator
      else (case reverse_range v (reverse_iterator (base first - 1)) stop of
              Inl e \<Rightarrow> Inl e
            | Inr xs \<Rightarrow> Inr (v ! (base first - 1) # xs)))"
  by pat_completeness auto
termination
  by (relation "measure (\<lambda>(v, first, stop). base first)") auto

declare reverse_range.simps [simp del]

text \<open>
  In the words of the specification: the subsequence of the children of one type, in
  combined order.
\<close>

definition element_children :: "variant_t list \<Rightarrow> Element list" where
  "element_children ms = [e. Elem e \<leftarrow> ms]"

definition section_children :: "variant_t list \<Rightarrow> Section list" where
  "section_children ms = [s. Sect s \<leftarrow> ms]"

text \<open>A Section object with a single Element child and empty caches.\<close>

definition section_one_element :: Section_object where
  "section_one_element =
     \<lparr>this = Section ''div'' [] [Elem (Element ''p'' [] ''x'' Container)],
      elements = [], sections = []\<rparr>"


section \<open>Properties of the TreeBuilder\<close>

subsection \<open>The pop loop\<close>

lemma pop_loop_drop: "pop_loop stack d = drop (length stack - unat (d + 1)) stack"
proof (induction stack d rule: pop_loop.induct)
  case (1 stack d)
  show ?case
  proof (cases "length stack > unat (d + 1)")
    case True
    then have "pop_loop stack d = pop_loop (tl stack) d"
      by (simp add: pop_loop.simps)
    also have "\<dots> = drop (length (tl stack) - unat (d + 1)) (tl stack)"
      using 1 True by simp
    also have "\<dots> = drop (length stack - unat (d + 1)) stack"
    proof (cases stack)
      case Nil
      with True show ?thesis by simp
    next
      case (Cons a rest)
      with True have "length stack - unat (d + 1) = Suc (length rest - unat (d + 1))"
        by simp
      with Cons show ?thesis by simp
    qed
    finally show ?thesis .
  next
    case False
    then show ?thesis by (simp add: pop_loop.simps)
  qed
qed

lemma pop_loop_length: "length (pop_loop stack d) = min (length stack) (unat (d + 1))"
  by (simp add: pop_loop_drop)

text \<open>Away from the largest value the sum does not wrap; at the largest value it is 0.\<close>

lemma unat_depth_plus_one: "d + 1 \<noteq> 0 \<Longrightarrow> unat (d + 1) = unat d + 1"
  for d :: depth_type
  using unatSuc [of d] by (simp add: add.commute)

lemma pop_loop_wrap: "d + 1 = 0 \<Longrightarrow> pop_loop stack d = []"
  by (simp add: pop_loop_drop)

lemma pop_loop_deeper:
  fixes d d' :: depth_type
  assumes "length stack \<le> unat d + 2" and "d < d'" and "d' + 1 \<noteq> 0"
  shows "pop_loop stack d' = stack"
proof -
  from assms(2) have "unat d < unat d'" by (simp add: word_less_nat_alt)
  with assms(1,3) have "length stack \<le> unat (d' + 1)"
    by (simp add: unat_depth_plus_one)
  then show ?thesis by (simp add: pop_loop_drop)
qed

subsection \<open>The stack invariant\<close>

lemma chain_drop: "chain stack \<Longrightarrow> k < length stack \<Longrightarrow> chain (drop k stack)"
proof (induction k arbitrary: stack)
  case 0
  then show ?case by simp
next
  case (Suc k)
  then obtain p q rest where s: "stack = p # q # rest"
    by (cases stack; cases "tl stack") auto
  with Suc show ?case by simp
qed

lemma chain_last: "chain stack \<Longrightarrow> last stack = []"
  by (induction stack rule: chain.induct) auto

lemma chain_prefix: "chain stack \<Longrightarrow> q \<in> set stack \<Longrightarrow> \<exists>r. hd stack = q @ r"
proof (induction stack rule: chain.induct)
  case 1
  then show ?case by simp
next
  case (2 p)
  then show ?case by simp
next
  case (3 p q' stack)
  show ?case
  proof (cases "q = p")
    case True
    then show ?thesis by simp
  next
    case False
    with 3 obtain r where "q' = q @ r" by auto
    moreover from 3 have "p = q' @ [last p]" 
      by (metis append_butlast_last_id chain.simps(3))
    ultimately have "p = q @ (r @ [last p])" by simp
    then show ?thesis by auto
  qed
qed

subsection \<open>Reading and writing through a Section pointer\<close>

lemma deref_append:
  "deref s (p @ q) = (case deref s p of None \<Rightarrow> None | Some c \<Rightarrow> deref c q)"
  by (induction p arbitrary: s) (auto split: variant_t.splits)

lemma assign_Some: "deref s p = Some c \<Longrightarrow> \<exists>s'. assign s p v = Some s'"
proof (induction p arbitrary: s)
  case Nil
  then show ?case by simp
next
  case (Cons i p)
  from Cons.prems obtain c' where i: "i < length (section_members s)"
    and m: "section_members s ! i = Sect c'" and d: "deref c' p = Some c"
    by (auto split: variant_t.splits if_splits)
  from Cons.IH [OF d] obtain c'' where "assign c' p v = Some c''" by blast
  with i m show ?case by simp
qed

lemma deref_assign: "assign s p v = Some s' \<Longrightarrow> deref s' p = Some v"
  by (induction p arbitrary: s s') (auto split: variant_t.splits if_splits option.splits)

lemma assign_tag:
  "assign s p v = Some s' \<Longrightarrow> p \<noteq> [] \<Longrightarrow>
    section_tag s' = section_tag s \<and> section_properties s' = section_properties s"
  by (cases p) (auto split: variant_t.splits if_splits option.splits)

lemma back_section_index_snoc:
  "back_section_index (ms @ [Sect c]) (Suc (length ms)) = Some (length ms)"
  by simp


subsection \<open>The two push statements\<close>

lemma push_back_members: "section_members (push_back s v) = section_members s @ [v]"
  by (cases s) simp

lemma push_back_tag:
  "section_tag (push_back s v) = section_tag s"
  "section_properties (push_back s v) = section_properties s"
  by (cases s, simp)+

lemma assign_push_back_tag:
  assumes "deref c p = Some s" and "assign c p (push_back s v) = Some c'"
  shows "section_tag c' = section_tag c \<and> section_properties c' = section_properties c"
proof (cases p)
  case Nil
  with assms show ?thesis by (auto simp: push_back_tag)
next
  case (Cons i q)
  with assms(2) show ?thesis using assign_tag [of c p "push_back s v" c'] by simp
qed

lemma ptr_push_back_ok:
  assumes "deref root cur = Some s"
  shows "\<exists>root'. ptr_push_back root cur v = Inr root'
           \<and> deref root' cur = Some (push_back s v)
           \<and> section_tag root' = section_tag root
           \<and> section_properties root' = section_properties root"
proof -
  from assign_Some [OF assms] obtain root' where a: "assign root cur (push_back s v) = Some root'"
    by blast
  from a assms have "ptr_push_back root cur v = Inr root'"
    by (simp add: ptr_push_back_def)
  with deref_assign [OF a] assign_push_back_tag [OF assms a] show ?thesis by simp
qed

text \<open>
  What a push through a pointer does to the children of the root: through the pointer to
  the root it appends the new child; through any other pointer it changes the inside of one
  Section child and nothing else.
\<close>

lemma ptr_push_back_root:
  assumes "ptr_push_back root [] v = Inr root'"
  shows "section_members root' = section_members root @ [v]"
  using assms by (auto simp: ptr_push_back_def push_back_members)

lemma ptr_push_back_below:
  assumes "ptr_push_back root cur v = Inr root'" and "cur \<noteq> []"
  shows "map shallow (section_members root') = map shallow (section_members root)"
proof -
  from assms(2) obtain i p where cur: "cur = i # p" by (cases cur) auto
  from assms(1) obtain s where d: "deref root cur = Some s"
    and a: "assign root cur (push_back s v) = Some root'"
    by (auto simp: ptr_push_back_def split: option.splits)
  from d cur obtain c where i: "i < length (section_members root)"
    and m: "section_members root ! i = Sect c" and dc: "deref c p = Some s"
    by (auto split: variant_t.splits if_splits)
  from a cur i m obtain c' where ac: "assign c p (push_back s v) = Some c'"
    and r: "root' = Section (section_tag root) (section_properties root)
                      ((section_members root)[i := Sect c'])"
    by (auto split: option.splits)
  from assign_push_back_tag [OF dc ac] m
  have "shallow (Sect c') = shallow (section_members root ! i)" by simp
  then have "(map shallow (section_members root))[i := shallow (Sect c')]
      = map shallow (section_members root)"
    using i by (simp add: list_update_same_conv)
  with r show ?thesis by (simp add: map_update)
qed

lemma push_element_ok:
  assumes "deref (container st) cur = Some s"
  shows "\<exists>root'. push_element st stack cur e = Inr \<lparr>container = root', section_stack = stack\<rparr>
           \<and> deref root' cur = Some (push_back s (Elem e))
           \<and> section_tag root' = section_tag (container st)
           \<and> section_properties root' = section_properties (container st)"
proof -
  from ptr_push_back_ok [OF assms, of "Elem e"] obtain root' where
    "ptr_push_back (container st) cur (Elem e) = Inr root'"
    "deref root' cur = Some (push_back s (Elem e))"
    "section_tag root' = section_tag (container st)"
    "section_properties root' = section_properties (container st)"
    by blast
  then show ?thesis by (simp add: push_element_def)
qed

lemma push_section_ok:
  assumes "deref (container st) cur = Some s"
  shows "\<exists>root'. push_section st stack cur new_sect =
             Inr \<lparr>container = root',
                  section_stack = (cur @ [length (section_members s)]) # stack\<rparr>
           \<and> deref root' cur = Some (push_back s (Sect new_sect))
           \<and> deref root' (cur @ [length (section_members s)]) = Some new_sect
           \<and> section_tag root' = section_tag (container st)
           \<and> section_properties root' = section_properties (container st)"
proof -
  from ptr_push_back_ok [OF assms, of "Sect new_sect"] obtain root' where
    r: "ptr_push_back (container st) cur (Sect new_sect) = Inr root'"
    and d: "deref root' cur = Some (push_back s (Sect new_sect))"
    and t: "section_tag root' = section_tag (container st)"
       "section_properties root' = section_properties (container st)"
    by blast
  have b: "ptr_back_section root' cur = Inr (cur @ [length (section_members s)])"
    using d by (simp add: ptr_back_section_def push_back_members)
  have "deref root' (cur @ [length (section_members s)]) = Some new_sect"
    using d by (simp add: deref_append push_back_members)
  with r d t b show ?thesis by (simp add: push_section_def)
qed

lemma pop_loop_chain:
  assumes "stack_ok st" and "pop_loop (section_stack st) d = cur # rest"
  shows "chain (cur # rest) \<and> (\<exists>s. deref (container st) cur = Some s)
           \<and> (rest = [] \<longleftrightarrow> cur = [])"
proof -
  let ?stack = "section_stack st"
  let ?k = "length ?stack - unat (d + 1)"
  from assms(1) have c: "chain ?stack" and v: "deref (container st) (hd ?stack) \<noteq> None"
    by (simp_all add: stack_ok_def)
  from assms(2) have p: "drop ?k ?stack = cur # rest" by (simp add: pop_loop_drop)
  then have k: "?k < length ?stack" by (cases "?k < length ?stack") auto
  have c': "chain (cur # rest)"
    using chain_drop [OF c k] p by simp
  have "cur \<in> set ?stack"
    using p by (metis in_set_dropD list.set_intros(1))
  from chain_prefix [OF c this] obtain r where "hd ?stack = cur @ r" by blast
  with v have "\<exists>s. deref (container st) cur = Some s"
    by (auto simp: deref_append split: option.splits)
  moreover from c' have "rest = [] \<longleftrightarrow> cur = []"
    by (cases rest) auto
  ultimately show ?thesis using c' by simp
qed

lemma pop_loop_ok:
  assumes "stack_ok st" and "d + 1 \<noteq> 0"
  shows "\<exists>cur rest s. pop_loop (section_stack st) d = cur # rest
           \<and> chain (cur # rest) \<and> deref (container st) cur = Some s"
proof -
  let ?stack = "section_stack st"
  from assms(1) have "chain ?stack" by (simp add: stack_ok_def)
  then have "?stack \<noteq> []" by auto
  moreover from assms(2) have "0 < unat (d + 1)" by (simp add: unat_depth_plus_one)
  ultimately have "length ?stack - unat (d + 1) < length ?stack" by (cases ?stack) auto
  then have "pop_loop ?stack d \<noteq> []" by (simp add: pop_loop_drop)
  then obtain cur rest where p: "pop_loop ?stack d = cur # rest"
    by (cases "pop_loop ?stack d") auto
  with pop_loop_chain [OF assms(1) p] show ?thesis by auto
qed

subsection \<open>One iteration, and the whole loop\<close>

lemma loop_body_section:
  assumes ok: "stack_ok st"
    and br: "is_container (tag (list ! i)) \<or> implicit_container list i"
    and p: "pop_loop (section_stack st) (depth (list ! i)) = cur # rest"
    and d: "deref (container st) cur = Some s"
  shows "\<exists>root'. loop_body is_container list i st =
             Inr \<lparr>container = root',
                  section_stack = (cur @ [length (section_members s)]) # cur # rest\<rparr>
           \<and> deref root' cur =
               Some (push_back s (Sect (Section (tag (list ! i)) (properties (list ! i)) [])))
           \<and> deref root' (cur @ [length (section_members s)]) =
               Some (Section (tag (list ! i)) (properties (list ! i)) [])
           \<and> section_tag root' = section_tag (container st)
           \<and> section_properties root' = section_properties (container st)
           \<and> stack_ok \<lparr>container = root',
                  section_stack = (cur @ [length (section_members s)]) # cur # rest\<rparr>"
proof -
  let ?new = "Section (tag (list ! i)) (properties (list ! i)) []"
  from push_section_ok [OF d, of "cur # rest" ?new] obtain root' where
    r: "push_section st (cur # rest) cur ?new =
          Inr \<lparr>container = root',
               section_stack = (cur @ [length (section_members s)]) # cur # rest\<rparr>"
    and e: "deref root' cur = Some (push_back s (Sect ?new))"
       "deref root' (cur @ [length (section_members s)]) = Some ?new"
       "section_tag root' = section_tag (container st)"
       "section_properties root' = section_properties (container st)"
    by blast
  from pop_loop_chain [OF ok p] have c: "chain (cur # rest)"
    by simp
  have l: "loop_body is_container list i st =
      Inr \<lparr>container = root',
           section_stack = (cur @ [length (section_members s)]) # cur # rest\<rparr>"
    using br p r by (auto simp: loop_body_def Let_def)
  have "stack_ok \<lparr>container = root',
                  section_stack = (cur @ [length (section_members s)]) # cur # rest\<rparr>"
    using c e(2) by (simp add: stack_ok_def)
  with l e show ?thesis by blast
qed

lemma loop_body_element:
  assumes ok: "stack_ok st"
    and br: "\<not> is_container (tag (list ! i))" "\<not> implicit_container list i"
    and p: "pop_loop (section_stack st) (depth (list ! i)) = cur # rest"
    and d: "deref (container st) cur = Some s"
  shows "\<exists>root'. loop_body is_container list i st =
             Inr \<lparr>container = root', section_stack = cur # rest\<rparr>
           \<and> deref root' cur =
               Some (push_back s (Elem (Element (tag (list ! i)) (properties (list ! i))
                                          (data (list ! i)) (type (list ! i)))))
           \<and> section_tag root' = section_tag (container st)
           \<and> section_properties root' = section_properties (container st)
           \<and> stack_ok \<lparr>container = root', section_stack = cur # rest\<rparr>"
proof -
  let ?e = "Element (tag (list ! i)) (properties (list ! i)) (data (list ! i)) (type (list ! i))"
  from push_element_ok [OF d, of "cur # rest" ?e] obtain root' where
    r: "push_element st (cur # rest) cur ?e = Inr \<lparr>container = root', section_stack = cur # rest\<rparr>"
    and e: "deref root' cur = Some (push_back s (Elem ?e))"
       "section_tag root' = section_tag (container st)"
       "section_properties root' = section_properties (container st)"
    by blast
  from pop_loop_chain [OF ok p] have c: "chain (cur # rest)"
    by simp
  have l: "loop_body is_container list i st = Inr \<lparr>container = root', section_stack = cur # rest\<rparr>"
    using br p r by (simp add: loop_body_def Let_def)
  have "stack_ok \<lparr>container = root', section_stack = cur # rest\<rparr>"
    using c e(1) by (simp add: stack_ok_def)
  with l e show ?thesis by blast
qed

lemma loop_body_container:
  assumes "pop_loop (section_stack st) (depth (list ! i)) = cur # rest"
    and "loop_body is_container list i st = Inr st'"
  shows "ptr_push_back (container st) cur (node_of_token is_container list i)
           = Inr (container st')"
  using assms
  by (auto simp: loop_body_def node_of_token_def push_section_def push_element_def Let_def
      split: sum.splits if_splits)

lemma loop_body_wrap:
  assumes "depth (list ! i) + 1 = 0"
  shows "loop_body is_container list i st = Inl empty_stack_top"
  using assms by (simp add: loop_body_def pop_loop_wrap)

lemma loop_body_ok:
  assumes ok: "stack_ok st" and nw: "depth (list ! i) + 1 \<noteq> 0"
  shows "\<exists>st'. loop_body is_container list i st = Inr st' \<and> stack_ok st'
           \<and> section_tag (container st') = section_tag (container st)
           \<and> section_properties (container st') = section_properties (container st)
           \<and> map shallow (section_members (container st')) =
               map shallow (section_members (container st))
               @ (if length (pop_loop (section_stack st) (depth (list ! i))) = 1
                  then [node_of_token is_container list i] else [])"
proof -
  from pop_loop_ok [OF ok nw] obtain cur rest s where
    p: "pop_loop (section_stack st) (depth (list ! i)) = cur # rest"
    and d: "deref (container st) cur = Some s"
    by blast
  have "\<exists>st'. loop_body is_container list i st = Inr st' \<and> stack_ok st'
           \<and> section_tag (container st') = section_tag (container st)
           \<and> section_properties (container st') = section_properties (container st)"
  proof (cases "is_container (tag (list ! i)) \<or> implicit_container list i")
    case True
    from loop_body_section [where is_container = is_container, OF ok True p d] show ?thesis
      by (metis parser_state.select_convs(1))
  next
    case False
    then have "\<not> is_container (tag (list ! i))" "\<not> implicit_container list i" by simp_all
    from loop_body_element [where is_container = is_container, OF ok this p d] show ?thesis
      by (metis parser_state.select_convs(1))
  qed
  then obtain st' where l: "loop_body is_container list i st = Inr st'"
    and ok': "stack_ok st'"
    and t: "section_tag (container st') = section_tag (container st)"
       "section_properties (container st') = section_properties (container st)"
    by blast
  note pb = loop_body_container [OF p l]
  from pop_loop_chain [OF ok p] have r: "rest = [] \<longleftrightarrow> cur = []" by simp
  have sh: "shallow (node_of_token is_container list i) = node_of_token is_container list i"
    by (simp add: node_of_token_def Let_def)
  have "map shallow (section_members (container st')) =
          map shallow (section_members (container st))
          @ (if length (pop_loop (section_stack st) (depth (list ! i))) = 1
             then [node_of_token is_container list i] else [])"
  proof (cases "cur = []")
    case True
    with pb have "section_members (container st') =
        section_members (container st) @ [node_of_token is_container list i]"
      using ptr_push_back_root by simp
    with True r p sh show ?thesis by simp
  next
    case False
    with ptr_push_back_below [OF pb] r p show ?thesis by simp
  qed
  with l ok' t show ?thesis by blast
qed

lemma stack_ok_initial: "stack_ok initial_state"
  by (simp add: stack_ok_def initial_state_def)

lemma root_tokens_Suc:
  "root_tokens is_container list (Suc n) =
     root_tokens is_container list n @ (if at_root is_container list n then [n] else [])"
  by (simp add: root_tokens_def)

lemma run_ok:
  assumes "\<forall>j<n. depth (list ! j) + 1 \<noteq> 0"
  shows "\<exists>st. run is_container list n = Inr st \<and> stack_ok st
     \<and> section_tag (container st) = [] \<and> section_properties (container st) = []
     \<and> map shallow (section_members (container st)) =
         map (node_of_token is_container list) (root_tokens is_container list n)"
  using assms
proof (induction n)
  case 0
  show ?case
    using stack_ok_initial
    by (simp add: initial_state_def resolve_tag_Empty_def make_properties_def root_tokens_def)
next
  case (Suc n)
  then obtain st where r: "run is_container list n = Inr st" and ok: "stack_ok st"
    and t: "section_tag (container st) = []" "section_properties (container st) = []"
    and m: "map shallow (section_members (container st)) =
         map (node_of_token is_container list) (root_tokens is_container list n)"
    by auto
  from Suc.prems have nw: "depth (list ! n) + 1 \<noteq> 0" by simp
  from r have a: "at_root is_container list n
      = (length (pop_loop (section_stack st) (depth (list ! n))) = 1)"
    by (simp add: at_root_def)
  from loop_body_ok [OF ok nw, of is_container] r t m a show ?case
    by (auto simp: root_tokens_Suc)
qed

lemma run_error:
  "run is_container list n = Inl e \<Longrightarrow> run is_container list (n + k) = Inl e"
  by (induction k) simp_all

lemma run_error_le:
  assumes "run is_container list n = Inl e" and "n \<le> m"
  shows "run is_container list m = Inl e"
proof -
  from assms(2) obtain k where "m = n + k" using le_Suc_ex by blast
  with run_error [OF assms(1)] show ?thesis by simp
qed

lemma for_loop_run:
  assumes "run is_container list i = Inr st" and "i \<le> length list"
  shows "for_loop is_container list i st = run is_container list (length list)"
  using assms
proof (induction "length list - i" arbitrary: i st)
  case 0
  then have "i = length list" by simp
  with 0 show ?case by (simp add: for_loop.simps)
next
  case (Suc k)
  then have lt: "i < length list" by simp
  show ?case
  proof (cases "loop_body is_container list i st")
    case (Inl e)
    with Suc.prems have "run is_container list (Suc i) = Inl e" by simp
    from run_error_le [OF this, of "length list"] lt
    have "run is_container list (length list) = Inl e" by simp
    with Inl lt show ?thesis by (subst for_loop.simps) simp
  next
    case (Inr st')
    with Suc.prems have r: "run is_container list (Suc i) = Inr st'" by simp
    have "for_loop is_container list (Suc i) st' = run is_container list (length list)"
      using Suc.hyps(1) [of "Suc i" st'] Suc.hyps(2) r lt by simp
    with Inr lt show ?thesis by (subst for_loop.simps) simp
  qed
qed

lemma parse_html_string_run:
  "parse_html_string is_container list =
     (case run is_container list (length list) of Inl e \<Rightarrow> Inl e | Inr st \<Rightarrow> Inr (container st))"
  using for_loop_run [of is_container list 0 initial_state]
  by (simp add: parse_html_string_def)

text \<open>
  The for loop passes through the state in which iteration \<open>i\<close> starts: running it from
  the initial state is running it from that state at index \<open>i\<close>.
\<close>

lemma for_loop_through:
  assumes "run is_container list i = Inr st" and "i \<le> length list"
  shows "for_loop is_container list 0 initial_state = for_loop is_container list i st"
  using for_loop_run [OF assms] for_loop_run [of is_container list 0 initial_state]
  by simp


text \<open>
  The parser reads the top of an empty stack exactly when some token carries the depth at
  which \<^verbatim>\<open>it.depth + 1\<close> wraps to 0.
\<close>

lemma empty_stack_top_iff:
  "parse_html_string is_container list = Inl empty_stack_top
     \<longleftrightarrow> (\<exists>j<length list. depth (list ! j) + 1 = 0)"
proof
  assume "\<exists>j<length list. depth (list ! j) + 1 = 0"
  then have "\<exists>j. j < length list \<and> depth (list ! j) + 1 = 0" by blast
  then obtain j where j: "j < length list" "depth (list ! j) + 1 = 0"
    and least: "\<forall>k<j. \<not> (k < length list \<and> depth (list ! k) + 1 = 0)"
    using exists_least_iff [of "\<lambda>j. j < length list \<and> depth (list ! j) + 1 = 0"] by auto
  from least j(1) have "\<forall>k<j. depth (list ! k) + 1 \<noteq> 0" by auto
  from run_ok [OF this, of is_container] obtain st where
    "run is_container list j = Inr st" by blast
  with loop_body_wrap [OF j(2), of is_container st]
  have "run is_container list (Suc j) = Inl empty_stack_top" by simp
  from run_error_le [OF this, of "length list"] j(1)
  have "run is_container list (length list) = Inl empty_stack_top" by simp
  then show "parse_html_string is_container list = Inl empty_stack_top"
    by (simp add: parse_html_string_run)
next
  assume f: "parse_html_string is_container list = Inl empty_stack_top"
  show "\<exists>j<length list. depth (list ! j) + 1 = 0"
  proof (rule ccontr)
    assume "\<not> (\<exists>j<length list. depth (list ! j) + 1 = 0)"
    then have "\<forall>j<length list. depth (list ! j) + 1 \<noteq> 0" by simp
    from run_ok [OF this, of is_container] f show False
      by (auto simp: parse_html_string_run)
  qed
qed

subsection \<open>Evaluating the parser on concrete token lists\<close>

lemmas parse_unfold =
  parse_html_string_def for_loop.simps loop_body_def initial_state_def pop_loop.simps
  push_element_def push_section_def ptr_push_back_def ptr_back_section_def
  implicit_container_def resolve_tag_Empty_def make_properties_def Let_def

lemmas example_unfold =
  tokens_b_i_def tokens_div_p_span_def tokens_b_i_wrap_def tokens_p_wrap_def
  tokens_div_wrap_def is_container_div_def

section \<open>The claims about the TreeBuilder\<close>




text \<open>
  Claim C2, as the code has it. Let no token of the list carry the depth at which
  \<^verbatim>\<open>it.depth + 1\<close> wraps to 0. The loop starts from the root Section with the empty tag, no
  properties and no children, and a stack holding the pointer to that root only. It reaches
  every iteration \<open>i\<close>, in input order. There the pop loop leaves \<open>min (size, depth + 1)\<close>
  entries on the stack: it pops while the size exceeds \<open>depth + 1\<close> and pops nothing from a
  stack that is already smaller. If the token is classified Container, the iteration appends
  the empty \<open>Section(tag, properties)\<close> to the Section at the stack top and pushes a
  pointer to that new last child; the pop loop of a deeper token pops nothing from the stack
  so obtained, so the new Section is the current Section there. The loop ends in the state
  \<open>run \<dots> (length list)\<close>, and the function returns the container of that state: the root,
  still carrying the empty tag, to which the bottom entry of the stack still points. The
  children of the returned root are, in input order and up to their own children, the
  nodes of the tokens whose pop loop left the root alone on the stack; every token of depth
  0 is among them.
\<close>

theorem section_stack_discipline:
  assumes "\<forall>j<length list. depth (list ! j) + 1 \<noteq> 0"
  shows
  "run is_container list 0 = Inr \<lparr>container = Section [] [] [], section_stack = [[]]\<rparr>
   \<and> (i < length list \<longrightarrow>
        (\<exists>st cur rest s.
            run is_container list i = Inr st
          \<and> for_loop is_container list 0 initial_state = for_loop is_container list i st
          \<and> pop_loop (section_stack st) (depth (list ! i)) = cur # rest
          \<and> length (cur # rest) = min (length (section_stack st)) (unat (depth (list ! i)) + 1)
          \<and> deref (container st) cur = Some s
          \<and> (is_container (tag (list ! i)) \<longrightarrow>
               (\<exists>root'.
                   run is_container list (Suc i) =
                     Inr \<lparr>container = root',
                          section_stack = (cur @ [length (section_members s)]) # cur # rest\<rparr>
                 \<and> for_loop is_container list i st =
                     for_loop is_container list (Suc i)
                       \<lparr>container = root',
                        section_stack = (cur @ [length (section_members s)]) # cur # rest\<rparr>
                 \<and> deref root' cur =
                     Some (push_back s
                        (Sect (Section (tag (list ! i)) (properties (list ! i)) [])))
                 \<and> deref root' (cur @ [length (section_members s)]) =
                     Some (Section (tag (list ! i)) (properties (list ! i)) [])
                 \<and> (\<forall>d'. depth (list ! i) < d' \<and> d' + 1 \<noteq> 0 \<longrightarrow>
                       pop_loop ((cur @ [length (section_members s)]) # cur # rest) d'
                         = (cur @ [length (section_members s)]) # cur # rest)))))
   \<and> (\<exists>st. for_loop is_container list 0 initial_state = Inr st
          \<and> run is_container list (length list) = Inr st
          \<and> parse_html_string is_container list = Inr (container st)
          \<and> last (section_stack st) = []
          \<and> section_tag (container st) = []
          \<and> map shallow (section_members (container st)) =
              map (node_of_token is_container list)
                (root_tokens is_container list (length list)))
   \<and> (i < length list \<and> depth (list ! i) = 0 \<longrightarrow>
        i \<in> set (root_tokens is_container list (length list)))"
proof (intro conjI impI)
  show "run is_container list 0 = Inr \<lparr>container = Section [] [] [], section_stack = [[]]\<rparr>"
    by (simp add: initial_state_def resolve_tag_Empty_def make_properties_def)
next
  assume i: "i < length list"
  with assms have "\<forall>j<i. depth (list ! j) + 1 \<noteq> 0" and nw: "depth (list ! i) + 1 \<noteq> 0"
    by simp_all
  from run_ok [OF this(1), of is_container] obtain st where
    r: "run is_container list i = Inr st" and ok: "stack_ok st"
    by blast
  from i have le: "i \<le> length list" by simp
  note th = for_loop_through [OF r le]
  from pop_loop_ok [OF ok nw] obtain cur rest s where
    p: "pop_loop (section_stack st) (depth (list ! i)) = cur # rest"
    and d: "deref (container st) cur = Some s"
    by blast
  from p have n: "length (cur # rest) = min (length (section_stack st)) (unat (depth (list ! i)) + 1)"
    using pop_loop_length [of "section_stack st" "depth (list ! i)"]
    by (simp add: unat_depth_plus_one [OF nw])
  let ?new = "(cur @ [length (section_members s)]) # cur # rest"
  have "\<exists>root'.
          run is_container list (Suc i) = Inr \<lparr>container = root', section_stack = ?new\<rparr>
        \<and> for_loop is_container list i st =
            for_loop is_container list (Suc i) \<lparr>container = root', section_stack = ?new\<rparr>
        \<and> deref root' cur =
            Some (push_back s (Sect (Section (tag (list ! i)) (properties (list ! i)) [])))
        \<and> deref root' (cur @ [length (section_members s)]) =
            Some (Section (tag (list ! i)) (properties (list ! i)) [])
        \<and> (\<forall>d'. depth (list ! i) < d' \<and> d' + 1 \<noteq> 0 \<longrightarrow> pop_loop ?new d' = ?new)"
    if c: "is_container (tag (list ! i))"
  proof -
    from c have "is_container (tag (list ! i)) \<or> implicit_container list i" by simp
    from loop_body_section [where is_container = is_container, OF ok this p d]
    obtain root' where l:
      "loop_body is_container list i st = Inr \<lparr>container = root', section_stack = ?new\<rparr>"
      and e: "deref root' cur =
         Some (push_back s (Sect (Section (tag (list ! i)) (properties (list ! i)) [])))"
      "deref root' (cur @ [length (section_members s)]) =
         Some (Section (tag (list ! i)) (properties (list ! i)) [])"
      by blast
    from l i have s: "for_loop is_container list i st =
        for_loop is_container list (Suc i) \<lparr>container = root', section_stack = ?new\<rparr>"
      by (subst for_loop.simps) simp
    from n have "length ?new \<le> unat (depth (list ! i)) + 2" by simp
    then have "\<forall>d'. depth (list ! i) < d' \<and> d' + 1 \<noteq> 0 \<longrightarrow> pop_loop ?new d' = ?new"
      using pop_loop_deeper [of ?new "depth (list ! i)"] by blast
    with r l s e show ?thesis by simp
  qed
  with r th p n d show "\<exists>st cur rest s.
            run is_container list i = Inr st
          \<and> for_loop is_container list 0 initial_state = for_loop is_container list i st
          \<and> pop_loop (section_stack st) (depth (list ! i)) = cur # rest
          \<and> length (cur # rest) = min (length (section_stack st)) (unat (depth (list ! i)) + 1)
          \<and> deref (container st) cur = Some s
          \<and> (is_container (tag (list ! i)) \<longrightarrow>
               (\<exists>root'.
                   run is_container list (Suc i) =
                     Inr \<lparr>container = root',
                          section_stack = (cur @ [length (section_members s)]) # cur # rest\<rparr>
                 \<and> for_loop is_container list i st =
                     for_loop is_container list (Suc i)
                       \<lparr>container = root',
                        section_stack = (cur @ [length (section_members s)]) # cur # rest\<rparr>
                 \<and> deref root' cur =
                     Some (push_back s
                        (Sect (Section (tag (list ! i)) (properties (list ! i)) [])))
                 \<and> deref root' (cur @ [length (section_members s)]) =
                     Some (Section (tag (list ! i)) (properties (list ! i)) [])
                 \<and> (\<forall>d'. depth (list ! i) < d' \<and> d' + 1 \<noteq> 0 \<longrightarrow>
                       pop_loop ((cur @ [length (section_members s)]) # cur # rest) d'
                         = (cur @ [length (section_members s)]) # cur # rest)))"
    by (intro exI [of _ st] exI [of _ cur] exI [of _ rest] exI [of _ s]) simp
next
  from run_ok [OF assms, of is_container] obtain st where
    r: "run is_container list (length list) = Inr st" and ok: "stack_ok st"
    and t: "section_tag (container st) = []"
    and m: "map shallow (section_members (container st)) =
              map (node_of_token is_container list)
                (root_tokens is_container list (length list))"
    by blast
  from ok have "last (section_stack st) = []"
    by (simp add: stack_ok_def chain_last)
  moreover have "for_loop is_container list 0 initial_state = Inr st"
    using for_loop_run [of is_container list 0 initial_state] r by simp
  ultimately show "\<exists>st. for_loop is_container list 0 initial_state = Inr st
          \<and> run is_container list (length list) = Inr st
          \<and> parse_html_string is_container list = Inr (container st)
          \<and> last (section_stack st) = []
          \<and> section_tag (container st) = []
          \<and> map shallow (section_members (container st)) =
              map (node_of_token is_container list)
                (root_tokens is_container list (length list))"
    using r t m by (simp add: parse_html_string_run)
next
  assume a: "i < length list \<and> depth (list ! i) = 0"
  with assms have "\<forall>j<i. depth (list ! j) + 1 \<noteq> 0" by simp
  from run_ok [OF this, of is_container] obtain st where
    r: "run is_container list i = Inr st" and ok: "stack_ok st"
    by blast
  from ok have "section_stack st \<noteq> []" by (auto simp: stack_ok_def)
  then have "1 \<le> length (section_stack st)" by (cases "section_stack st") auto
  with a have "length (pop_loop (section_stack st) (depth (list ! i))) = 1"
    by (simp add: pop_loop_length)
  with r have "at_root is_container list i" by (simp add: at_root_def)
  with a show "i \<in> set (root_tokens is_container list (length list))"
    by (simp add: root_tokens_def)
qed

theorem section_stack_discipline_witness:
  "depth (tokens_div_p_span ! 0) + 1 \<noteq> 0 \<and> depth (tokens_div_p_span ! 1) + 1 \<noteq> 0
   \<and> depth (tokens_div_p_span ! 2) + 1 \<noteq> 0
   \<and> 0 < length tokens_div_p_span \<and> is_container_div (tag (tokens_div_p_span ! 0))
   \<and> depth (tokens_div_p_span ! 0) = 0
   \<and> (\<exists>root'. run is_container_div tokens_div_p_span (Suc 0) =
                  Inr \<lparr>container = root', section_stack = [[0], []]\<rparr>
              \<and> deref root' [0] = Some (Section ''div'' [] [])
              \<and> pop_loop [[0], []] (depth (tokens_div_p_span ! 1)) = [[0], []])
   \<and> (\<exists>st. run is_container_div tokens_div_p_span (length tokens_div_p_span) = Inr st
           \<and> parse_html_string is_container_div tokens_div_p_span = Inr (container st)
           \<and> section_tag (container st) = []
           \<and> map shallow (section_members (container st)) = [Sect (Section ''div'' [] [])])
   \<and> 0 \<in> set (root_tokens is_container_div tokens_div_p_span (length tokens_div_p_span))"
proof -
  have h0: "depth (tokens_div_p_span ! 0) + 1 \<noteq> 0" "depth (tokens_div_p_span ! 1) + 1 \<noteq> 0"
    "depth (tokens_div_p_span ! 2) + 1 \<noteq> 0"
    and h1: "0 < length tokens_div_p_span"
    and h2: "is_container_div (tag (tokens_div_p_span ! 0))"
    and h3: "depth (tokens_div_p_span ! 0) = 0"
    and h4: "depth (tokens_div_p_span ! 0) < depth (tokens_div_p_span ! 1)"
    by (simp_all add: example_unfold)
  have l: "length tokens_div_p_span = 3" by (simp add: example_unfold)
  have nw: "\<forall>j<length tokens_div_p_span. depth (tokens_div_p_span ! j) + 1 \<noteq> 0"
    by (simp add: example_unfold All_less_Suc)
  note t = section_stack_discipline
      [where is_container = is_container_div and list = tokens_div_p_span and i = 0, OF nw]
  from t h1 obtain st cur rest s where
    r0: "run is_container_div tokens_div_p_span 0 = Inr st"
    and p0: "pop_loop (section_stack st) (depth (tokens_div_p_span ! 0)) = cur # rest"
    and d0: "deref (container st) cur = Some s"
    and c0: "is_container_div (tag (tokens_div_p_span ! 0)) \<longrightarrow>
       (\<exists>root'.
           run is_container_div tokens_div_p_span (Suc 0) =
             Inr \<lparr>container = root',
                  section_stack = (cur @ [length (section_members s)]) # cur # rest\<rparr>
         \<and> for_loop is_container_div tokens_div_p_span 0 st =
             for_loop is_container_div tokens_div_p_span (Suc 0)
               \<lparr>container = root',
                section_stack = (cur @ [length (section_members s)]) # cur # rest\<rparr>
         \<and> deref root' cur =
             Some (push_back s
                (Sect (Section (tag (tokens_div_p_span ! 0))
                         (properties (tokens_div_p_span ! 0)) [])))
         \<and> deref root' (cur @ [length (section_members s)]) =
             Some (Section (tag (tokens_div_p_span ! 0)) (properties (tokens_div_p_span ! 0)) [])
         \<and> (\<forall>d'. depth (tokens_div_p_span ! 0) < d' \<and> d' + 1 \<noteq> 0 \<longrightarrow>
               pop_loop ((cur @ [length (section_members s)]) # cur # rest) d'
                 = (cur @ [length (section_members s)]) # cur # rest))"
    by blast
  from r0 have st: "st = initial_state" by simp
  from p0 st have cr: "cur = []" "rest = []"
    by (simp_all add: initial_state_def pop_loop.simps example_unfold)
  from d0 st cr have s: "s = Section [] [] []"
    by (simp add: initial_state_def resolve_tag_Empty_def make_properties_def)
  from c0 h2 cr s obtain root' where
    r1: "run is_container_div tokens_div_p_span (Suc 0) =
           Inr \<lparr>container = root', section_stack = [[0], []]\<rparr>"
    and d1: "deref root' [0] =
           Some (Section (tag (tokens_div_p_span ! 0)) (properties (tokens_div_p_span ! 0)) [])"
    and deeper: "\<forall>d'. depth (tokens_div_p_span ! 0) < d' \<and> d' + 1 \<noteq> 0 \<longrightarrow>
           pop_loop [[0], []] d' = [[0], []]"
    by auto
  from deeper h4 h0(2)
  have "pop_loop [[0], []] (depth (tokens_div_p_span ! 1)) = [[0], []]" by blast
  moreover from d1 have "deref root' [0] = Some (Section ''div'' [] [])"
    by (simp add: example_unfold)
  ultimately have a: "\<exists>root'. run is_container_div tokens_div_p_span (Suc 0) =
                  Inr \<lparr>container = root', section_stack = [[0], []]\<rparr>
              \<and> deref root' [0] = Some (Section ''div'' [] [])
              \<and> pop_loop [[0], []] (depth (tokens_div_p_span ! 1)) = [[0], []]"
    using r1 by blast
  have r: "root_tokens is_container_div tokens_div_p_span (length tokens_div_p_span) = [0]"
    by (simp add: root_tokens_def at_root_def l numeral_3_eq_3 parse_unfold example_unfold
        node_of_token_def)
  have n: "node_of_token is_container_div tokens_div_p_span 0 = Sect (Section ''div'' [] [])"
    by (simp add: node_of_token_def example_unfold)
  have b: "\<exists>st. run is_container_div tokens_div_p_span (length tokens_div_p_span) = Inr st
           \<and> parse_html_string is_container_div tokens_div_p_span = Inr (container st)
           \<and> section_tag (container st) = []
           \<and> map shallow (section_members (container st)) = [Sect (Section ''div'' [] [])]"
    using t r n by auto
  have c: "0 \<in> set (root_tokens is_container_div tokens_div_p_span (length tokens_div_p_span))"
    using t h1 h3 by blast
  from h0 h1 h2 h3 a b c show ?thesis by blast
qed

text \<open>
  Claim C2 as stated fails in three places. On the tokens \<open>(b, depth 0)\<close>, \<open>(i, depth 1)\<close>,
  neither classified Container, iteration 1 starts with the root alone on the stack, since
  \<open>b\<close> was appended as a leaf; the pop loop leaves that single entry, and \<open>1\<close> is not
  \<open>depth + 1 = 2\<close>. The root returned for these tokens has the Section \<open>i\<close> among its
  children, the node of a token of depth 1, which is not a top-level node. On the single
  token \<open>(div, largest depth)\<close>, classified Container, \<^verbatim>\<open>it.depth + 1\<close> wraps to 0, the pop
  loop empties the stack and no root is returned.
\<close>

theorem pop_loop_size_below_depth:
  "run is_container_div tokens_b_i 1 =
      Inr \<lparr>container = Section [] [] [Elem (Element ''b'' [] [] Void)], section_stack = [[]]\<rparr>
   \<and> length (pop_loop [[]] (depth (tokens_b_i ! 1))) \<noteq> unat (depth (tokens_b_i ! 1)) + 1
   \<and> parse_html_string is_container_div tokens_b_i =
      Inr (Section [] [] [Elem (Element ''b'' [] [] Void), Sect (Section ''i'' [] [])])
   \<and> node_of_token is_container_div tokens_b_i 1 = Sect (Section ''i'' [] [])
   \<and> depth (tokens_b_i ! 1) = 1
   \<and> is_container_div (tag (tokens_div_wrap ! 0))
   \<and> pop_loop [[]] (depth (tokens_div_wrap ! 0)) = []
   \<and> parse_html_string is_container_div tokens_div_wrap = Inl empty_stack_top"
  by (simp add: parse_unfold example_unfold node_of_token_def)

text \<open>
  Claim C3, as the code has it. On the tokens \<open>(b, depth 0, text "")\<close>,
  \<open>(i, depth 1, text "")\<close>, neither classified Container, the parser returns the root with
  exactly two children, in this order: the leaf Element \<open>b\<close> and the empty Section \<open>i\<close>.
  Token \<open>i\<close> becomes a Section (the implicit container of line 33), but it is appended to
  the root, next to \<open>b\<close>.
\<close>

theorem parse_b_i_sibling_section:
  assumes "\<not> is_container ''b''" and "\<not> is_container ''i''"
  shows "parse_html_string is_container
           [\<lparr>tag = ''b'', properties = pb, data = [], type = tb, depth = 0\<rparr>,
            \<lparr>tag = ''i'', properties = pi, data = [], type = ti, depth = 1\<rparr>]
         = Inr (Section [] [] [Elem (Element ''b'' pb [] tb), Sect (Section ''i'' pi [])])"
  using assms by (simp add: parse_unfold)

theorem parse_b_i_sibling_section_witness:
  "\<not> is_container_div ''b'' \<and> \<not> is_container_div ''i''
   \<and> parse_html_string is_container_div tokens_b_i =
       Inr (Section [] [] [Elem (Element ''b'' [] [] Void), Sect (Section ''i'' [] [])])"
proof -
  have h1: "\<not> is_container_div ''b''" and h2: "\<not> is_container_div ''i''"
    by (simp_all add: is_container_div_def)
  from parse_b_i_sibling_section [where is_container = is_container_div, OF h1 h2, of "[]" Void "[]" Void]
    h1 h2 show ?thesis
    by (simp add: tokens_b_i_def)
qed

text \<open>
  Claim C3 as stated fails: in the tree returned for these two tokens, \<open>i\<close> is not nested
  as a child Section under \<open>b\<close>; \<open>b\<close> is a leaf Element and \<open>i\<close> is its sibling.
\<close>

theorem parse_b_i_not_nested:
  "parse_html_string is_container_div tokens_b_i =
      Inr (Section [] [] [Elem (Element ''b'' [] [] Void), Sect (Section ''i'' [] [])])
   \<and> \<not> nested_under ''b'' ''i''
          (Section [] [] [Elem (Element ''b'' [] [] Void), Sect (Section ''i'' [] [])])"
  by (simp add: parse_unfold tokens_b_i_def is_container_div_def nested_under_def)

text \<open>
  Claim C4. On the tokens \<open>(div, depth 0)\<close>, \<open>(p, depth 1, text "x")\<close>,
  \<open>(span, depth 1, text "y")\<close>, with div classified Container and p and span not, whatever
  their properties and type fields and whatever the text of div, the parser returns the
  root whose single child is the Section div holding exactly the two leaf Elements
  \<open>(p, "x")\<close> and \<open>(span, "y")\<close>, in this order.
\<close>

theorem parse_div_p_span:
  assumes "is_container ''div''" and "\<not> is_container ''p''" and "\<not> is_container ''span''"
  shows "parse_html_string is_container
           [\<lparr>tag = ''div'', properties = pd, data = xd, type = td, depth = 0\<rparr>,
            \<lparr>tag = ''p'', properties = pp, data = ''x'', type = tp, depth = 1\<rparr>,
            \<lparr>tag = ''span'', properties = ps, data = ''y'', type = ts, depth = 1\<rparr>]
         = Inr (Section [] []
                 [Sect (Section ''div'' pd
                    [Elem (Element ''p'' pp ''x'' tp), Elem (Element ''span'' ps ''y'' ts)])])"
  using assms by (simp add: parse_unfold)

theorem parse_div_p_span_witness:
  "is_container_div ''div'' \<and> \<not> is_container_div ''p'' \<and> \<not> is_container_div ''span''
   \<and> parse_html_string is_container_div tokens_div_p_span =
       Inr (Section [] []
             [Sect (Section ''div'' []
                [Elem (Element ''p'' [] ''x'' Container),
                 Elem (Element ''span'' [] ''y'' Container)])])"
proof -
  have h1: "is_container_div ''div''" and h2: "\<not> is_container_div ''p''"
    and h3: "\<not> is_container_div ''span''"
    by (simp_all add: is_container_div_def)
  from parse_div_p_span [where is_container = is_container_div, OF h1 h2 h3,
      of "[]" "[]" Container "[]" Container "[]" Container]
    h1 h2 h3 show ?thesis
    by (simp add: tokens_div_p_span_def)
qed

text \<open>
  Claim C9, as the code has it. For every token list in which no token carries the depth at
  which \<^verbatim>\<open>it.depth + 1\<close> wraps to 0, and every iteration \<open>i\<close> of the loop: the for loop
  reaches the iteration (no earlier iteration failed) in a state with a non-empty stack; the
  pop loop leaves \<open>min (size, depth + 1)\<close> entries, which is at least one, and the bottom
  entry is still the pointer to the root, so the read of the stack top at line 27 is defined:
  neither the iteration nor the whole function ends in \<open>empty_stack_top\<close>, and the function
  returns a root. Lemma \<open>empty_stack_top_iff\<close> above shows that the condition on the depths
  cannot be dropped for any token.
\<close>

theorem section_stack_never_empty:
  assumes "\<forall>j<length list. depth (list ! j) + 1 \<noteq> 0" and "i < length list"
  shows "\<exists>st. run is_container list i = Inr st
           \<and> for_loop is_container list 0 initial_state = for_loop is_container list i st
           \<and> section_stack st \<noteq> []
           \<and> pop_loop (section_stack st) (depth (list ! i)) \<noteq> []
           \<and> length (pop_loop (section_stack st) (depth (list ! i)))
               = min (length (section_stack st)) (unat (depth (list ! i)) + 1)
           \<and> last (pop_loop (section_stack st) (depth (list ! i))) = []
           \<and> loop_body is_container list i st \<noteq> Inl empty_stack_top
           \<and> parse_html_string is_container list \<noteq> Inl empty_stack_top
           \<and> (\<exists>root. parse_html_string is_container list = Inr root)"
proof -
  from assms have "\<forall>j<i. depth (list ! j) + 1 \<noteq> 0" and nw: "depth (list ! i) + 1 \<noteq> 0"
    by simp_all
  from run_ok [OF this(1), of is_container] obtain st where
    r: "run is_container list i = Inr st" and ok: "stack_ok st"
    by blast
  from assms(2) have "i \<le> length list" by simp
  note th = for_loop_through [OF r this]
  from ok have ne: "section_stack st \<noteq> []" by (auto simp: stack_ok_def)
  from pop_loop_ok [OF ok nw] obtain cur rest where
    p: "pop_loop (section_stack st) (depth (list ! i)) = cur # rest" and c: "chain (cur # rest)"
    by blast
  from chain_last [OF c] p have l: "last (pop_loop (section_stack st) (depth (list ! i))) = []"
    by simp
  have n: "length (pop_loop (section_stack st) (depth (list ! i)))
               = min (length (section_stack st)) (unat (depth (list ! i)) + 1)"
    by (simp add: pop_loop_length unat_depth_plus_one [OF nw])
  from loop_body_ok [OF ok nw, of is_container]
  have b: "loop_body is_container list i st \<noteq> Inl empty_stack_top" by auto
  from run_ok [OF assms(1), of is_container]
  have "\<exists>root. parse_html_string is_container list = Inr root"
    by (auto simp: parse_html_string_run)
  then have "parse_html_string is_container list \<noteq> Inl empty_stack_top
      \<and> (\<exists>root. parse_html_string is_container list = Inr root)"
    by auto
  with r th ne p l n b show ?thesis by simp
qed

theorem section_stack_never_empty_witness:
  "depth (tokens_b_i ! 0) + 1 \<noteq> 0 \<and> depth (tokens_b_i ! 1) + 1 \<noteq> 0
   \<and> 1 < length tokens_b_i
   \<and> (\<exists>st. run is_container_div tokens_b_i 1 = Inr st
          \<and> section_stack st = [[]]
          \<and> pop_loop (section_stack st) (depth (tokens_b_i ! 1)) = [[]])
   \<and> parse_html_string is_container_div tokens_b_i \<noteq> Inl empty_stack_top"
proof -
  have h: "1 < length tokens_b_i"
    and h0: "depth (tokens_b_i ! 0) + 1 \<noteq> 0" "depth (tokens_b_i ! 1) + 1 \<noteq> 0"
    by (simp_all add: example_unfold)
  have nw: "\<forall>j<length tokens_b_i. depth (tokens_b_i ! j) + 1 \<noteq> 0"
    by (simp add: example_unfold All_less_Suc)
  from section_stack_never_empty [where is_container = is_container_div, OF nw h] h h0
  show ?thesis
    by (auto simp: parse_unfold example_unfold)
qed

text \<open>
  Claim C9 as stated fails for the depth at which \<^verbatim>\<open>it.depth + 1\<close> wraps to 0: on the
  single token \<open>(p, largest depth, text "x")\<close> the pop loop of the first iteration pops the
  root, and the top of the empty stack is read.
\<close>

theorem section_stack_emptied:
  "section_stack initial_state = [[]]
   \<and> depth (tokens_p_wrap ! 0) + 1 = 0
   \<and> pop_loop (section_stack initial_state) (depth (tokens_p_wrap ! 0)) = []
   \<and> loop_body is_container_div tokens_p_wrap 0 initial_state = Inl empty_stack_top
   \<and> parse_html_string is_container_div tokens_p_wrap = Inl empty_stack_top"
  by (simp add: parse_unfold example_unfold)

section \<open>Properties of the Section accessors\<close>

lemma get_any_loop_eq:
  "i \<le> index \<Longrightarrow> get_any_loop ms index i =
     (if index < length ms then Inr (ms ! index) else Inl out_of_range)"
proof (induction ms index i rule: get_any_loop.induct)
  case (1 ms index i)
  show ?case
  proof (cases "i < length ms")
    case False
    with 1 show ?thesis by (simp add: get_any_loop.simps)
  next
    case True
    show ?thesis
    proof (cases "i = index")
      case True
      with \<open>i < length ms\<close> show ?thesis
        by (simp add: get_any_loop.simps vector_at_def)
    next
      case False
      with 1 True have "get_any_loop ms index (i + 1) =
          (if index < length ms then Inr (ms ! index) else Inl out_of_range)"
        by simp
      with True False show ?thesis by (subst get_any_loop.simps) simp
    qed
  qed
qed

lemma fill_elements_eq: "fill_elements ms es = es @ element_children ms"
  by (induction ms arbitrary: es) (auto simp: element_children_def split: variant_t.splits)

lemma fill_sections_eq: "fill_sections ms ss = ss @ section_children ms"
  by (induction ms arbitrary: ss) (auto simp: section_children_def split: variant_t.splits)

lemma rebuild_elements_eq:
  "rebuild_elements obj = obj\<lparr>elements := element_children (members obj)\<rparr>"
  by (simp add: rebuild_elements_def fill_elements_eq)

lemma rebuild_sections_eq:
  "rebuild_sections obj = obj\<lparr>sections := section_children (members obj)\<rparr>"
  by (simp add: rebuild_sections_def fill_sections_eq)

lemma members_update [simp]:
  "members (obj\<lparr>elements := es\<rparr>) = members obj"
  "members (obj\<lparr>sections := ss\<rparr>) = members obj"
  "members (obj\<lparr>this := s\<rparr>) = section_members s"
  by (simp_all add: members_def)

lemma forward_range_all:
  "n \<le> length v \<Longrightarrow> forward_range v n (length v) = Inr (drop n v)"
proof (induction "length v - n" arbitrary: n)
  case 0
  then show ?case by (simp add: forward_range.simps)
next
  case (Suc k)
  then have lt: "n < length v" by simp
  with Suc have "forward_range v (n + 1) (length v) = Inr (drop (n + 1) v)" by simp
  with lt show ?case
    by (subst forward_range.simps) (simp add: Cons_nth_drop_Suc)
qed

lemma forward_range_whole: "forward_range v 0 (length v) = Inr v"
  using forward_range_all [of 0 v] by simp

lemma reverse_range_all:
  "n \<le> length v \<Longrightarrow>
     reverse_range v (reverse_iterator n) (reverse_iterator 0) = Inr (rev (take n v))"
proof (induction n)
  case 0
  then show ?case by (simp add: reverse_range.simps)
next
  case (Suc n)
  then have "reverse_range v (reverse_iterator n) (reverse_iterator 0) = Inr (rev (take n v))"
    by simp
  with Suc.prems show ?case
    by (subst reverse_range.simps) (simp add: take_Suc_conv_app_nth)
qed

lemma reverse_range_same: "reverse_range v it it = Inr []"
  by (simp add: reverse_range.simps)

lemmas view_unfold =
  element_begin_def element_end_def element_begin_const_def element_end_const_def
  element_rbegin_def element_rend_def element_crbegin_def element_crend_def
  section_begin_def section_end_def section_begin_const_def section_end_const_def
  section_rbegin_def section_rend_def
  rebuild_elements_eq rebuild_sections_eq Let_def

text \<open>
  The reverse views whose end iterator is built from \<^verbatim>\<open>rend()\<close> or \<^verbatim>\<open>crend()\<close> enumerate
  the snapshot backwards: the const reverse element view and the reverse section view.
\<close>

lemma element_crbegin_crend:
  "reverse_range (elements (snd (element_crend (snd (element_crbegin obj)))))
     (fst (element_crbegin obj)) (fst (element_crend (snd (element_crbegin obj))))
   = Inr (rev (element_children (members obj)))"
  by (simp add: view_unfold reverse_range_all)

lemma section_rbegin_rend:
  "reverse_range (sections (snd (section_rend (snd (section_rbegin obj)))))
     (fst (section_rbegin obj)) (fst (section_rend (snd (section_rbegin obj))))
   = Inr (rev (section_children (members obj)))"
  by (simp add: view_unfold reverse_range_all)

text \<open>
  The reverse element view: both iterators have the same base, so the loop between them
  visits nothing, whatever the children are.
\<close>

lemma element_rbegin_rend:
  "reverse_range (elements (snd (element_rend (snd (element_rbegin obj)))))
     (fst (element_rbegin obj)) (fst (element_rend (snd (element_rbegin obj)))) = Inr []"
  by (simp add: view_unfold reverse_range_same)

section \<open>The claims about Section and Property\<close>

text \<open>
  Claim C5. For every Section object and every index, \<^verbatim>\<open>get_any\<close> returns the entry of
  the combined child list at that index when the index is below the number of children,
  and fails with \<open>out_of_range\<close> otherwise; in both cases the object, and with it the child
  list, is as before the call.
\<close>

theorem get_any_result:
  "get_any obj idx =
     (if idx < length (members obj) then Inr (members obj ! idx) else Inl out_of_range, obj)"
  by (simp add: get_any_def get_any_loop_eq)

text \<open>
  Claim C6. For every Section object, whatever its two caches hold at the time of the
  call, each of \<^verbatim>\<open>element_begin\<close>, \<^verbatim>\<open>element_end\<close> and their const overloads leaves the
  element cache equal to the subsequence of the Element children, in combined order, and
  each of \<^verbatim>\<open>section_begin\<close>, \<^verbatim>\<open>section_end\<close> and their const overloads leaves the section
  cache equal to the subsequence of the Section children; the child list itself is not
  changed. The iterators returned delimit the whole snapshot. This holds in particular
  after the children were replaced (by any Section value \<open>s\<close>) and a view of the other type
  was requested since the previous view.
\<close>

theorem filtered_views_recomputed:
  "elements (snd (element_begin obj)) = element_children (members obj)
   \<and> elements (snd (element_end obj)) = element_children (members obj)
   \<and> elements (snd (element_begin_const obj)) = element_children (members obj)
   \<and> elements (snd (element_end_const obj)) = element_children (members obj)
   \<and> sections (snd (section_begin obj)) = section_children (members obj)
   \<and> sections (snd (section_end obj)) = section_children (members obj)
   \<and> sections (snd (section_begin_const obj)) = section_children (members obj)
   \<and> sections (snd (section_end_const obj)) = section_children (members obj)
   \<and> this (snd (element_begin obj)) = this obj \<and> this (snd (element_end obj)) = this obj
   \<and> this (snd (element_begin_const obj)) = this obj
   \<and> this (snd (element_end_const obj)) = this obj
   \<and> this (snd (section_begin obj)) = this obj \<and> this (snd (section_end obj)) = this obj
   \<and> this (snd (section_begin_const obj)) = this obj
   \<and> this (snd (section_end_const obj)) = this obj
   \<and> forward_range (elements (snd (element_end (snd (element_begin obj)))))
         (fst (element_begin obj)) (fst (element_end (snd (element_begin obj))))
       = Inr (element_children (members obj))
   \<and> forward_range (sections (snd (section_end (snd (section_begin obj)))))
         (fst (section_begin obj)) (fst (section_end (snd (section_begin obj))))
       = Inr (section_children (members obj))
   \<and> elements (snd (element_begin (snd (section_begin ((snd (element_begin obj))\<lparr>this := s\<rparr>)))))
       = element_children (section_members s)
   \<and> sections (snd (section_begin (snd (element_begin ((snd (section_begin obj))\<lparr>this := s\<rparr>)))))
       = section_children (section_members s)"
  by (simp add: view_unfold forward_range_whole)

text \<open>
  Claim C7, evaluated on a Section with the single Element child \<open>(p, "x")\<close>: the loop from
  \<^verbatim>\<open>element_rbegin()\<close> to \<^verbatim>\<open>element_rend()\<close> visits no element, although the reversal of
  the forward element view holds that child.
\<close>

theorem element_reverse_view_empty:
  "reverse_range (elements (snd (element_rend (snd (element_rbegin section_one_element)))))
     (fst (element_rbegin section_one_element))
     (fst (element_rend (snd (element_rbegin section_one_element)))) = Inr []
   \<and> rev (element_children (members section_one_element)) = [Element ''p'' [] ''x'' Container]"
  by (simp add: element_rbegin_rend section_one_element_def element_children_def members_def)

text \<open>
  Claim C8. In a size type of \<open>w\<close> bits, \<^verbatim>\<open>npos\<close> (of Section and of CSS::Property) is
  \<open>2 ^ w - 1\<close>. For a child list, or a list of properties, of fewer than \<open>2 ^ w - 1\<close>
  entries, no valid position (no \<open>i\<close> below the size) converts to \<^verbatim>\<open>npos\<close>, and \<^verbatim>\<open>npos\<close>
  is not below the size.
\<close>

theorem npos_not_a_position:
  "unat (Section_npos :: 'w::len word) = 2 ^ LENGTH('w) - 1
   \<and> unat (Property_npos :: 'w word) = 2 ^ LENGTH('w) - 1
   \<and> (length (ms :: variant_t list) < 2 ^ LENGTH('w) - 1 \<longrightarrow>
        (\<forall>i < length ms. (word_of_nat i :: 'w word) \<noteq> Section_npos)
        \<and> \<not> unat (Section_npos :: 'w word) < length ms)
   \<and> (length (ps :: Property list) < 2 ^ LENGTH('w) - 1 \<longrightarrow>
        (\<forall>i < length ps. (word_of_nat i :: 'w word) \<noteq> Property_npos)
        \<and> \<not> unat (Property_npos :: 'w word) < length ps)"
proof -
  have m: "unat (word_of_int (- 1) :: 'w word) = 2 ^ LENGTH('w) - 1"
    by (simp add: unsigned_minus_1_eq_mask mask_eq_exp_minus_1)
  have d: "(word_of_nat i :: 'w word) \<noteq> word_of_int (- 1)" if "i < 2 ^ LENGTH('w) - 1" for i
  proof
    assume "(word_of_nat i :: 'w word) = word_of_int (- 1)"
    then have "unat (word_of_nat i :: 'w word) = 2 ^ LENGTH('w) - 1"
      using m by simp
    moreover have "unat (word_of_nat i :: 'w word) = i"
      using that by (simp add: unat_of_nat)
    ultimately show False using that by simp
  qed
  show ?thesis
    using m d by (auto simp: Section_npos_def Property_npos_def)
qed

theorem npos_not_a_position_witness:
  "length [Elem (Element ''p'' [] ''x'' Container)] < 2 ^ LENGTH(64) - 1
   \<and> (word_of_nat 0 :: 64 word) \<noteq> Section_npos
   \<and> unat (Section_npos :: 64 word) = 18446744073709551615
   \<and> length [\<lparr>property = (''color'', ''red'')\<rparr>] < 2 ^ LENGTH(64) - 1
   \<and> (word_of_nat 0 :: 64 word) \<noteq> Property_npos"
proof -
  have h1: "length [Elem (Element ''p'' [] ''x'' Container)] < 2 ^ LENGTH(64) - 1"
    and h2: "length [\<lparr>property = (''color'', ''red'')\<rparr>] < 2 ^ LENGTH(64) - 1"
    by simp_all
  from npos_not_a_position [where 'w = 64
      and ms = "[Elem (Element ''p'' [] ''x'' Container)]"
      and ps = "[\<lparr>property = (''color'', ''red'')\<rparr>]"] h1 h2
  show ?thesis by simp
qed

text \<open>
  Claim C10. For every Property and all strings, \<^verbatim>\<open>set_key\<close> leaves the value as it was
  (and makes the key the given one), and \<^verbatim>\<open>set_value\<close> leaves the key as it was (and makes
  the value the given one).
\<close>

theorem set_key_set_value_frame:
  "get_value (set_key p k) = get_value p \<and> get_key (set_key p k) = k
   \<and> get_key (set_value p v) = get_key p \<and> get_value (set_value p v) = v"
  by (simp add: get_value_def get_key_def set_key_def set_value_def)

end
